theory Spec2Isabelle
  imports Main
begin

unbundle bit_operations_syntax

section \<open>Strings\<close>

text \<open>
  A JavaScript string is a sequence of code units; it is modelled as a \<open>string\<close>
  (a list of \<open>char\<close>), one \<open>char\<close> per code unit, and its \<open>.length\<close> is \<open>length\<close>.
  The model covers texts whose code units are ASCII: there \<open>toUpperCase\<close> maps
  \<open>a\<close>..\<open>z\<close> to \<open>A\<close>..\<open>Z\<close> and leaves every other code unit as it is, so the
  upper-cased text has the length of the text. What \<open>toUpperCase\<close> does beyond
  ASCII (the Unicode case tables) is not modelled.
\<close>

definition codeUnit :: "char \<Rightarrow> int" where
  "codeUnit c = int (of_char c)"

definition upperChar :: "char \<Rightarrow> char" where
  "upperChar c =
     (if 97 \<le> codeUnit c \<and> codeUnit c \<le> 122 then char_of (nat (codeUnit c - 32)) else c)"

definition toUpperCase :: "string \<Rightarrow> string" where
  "toUpperCase s = map upperChar s"

text \<open>The character class \<open>[A-Z]\<close> of the regular expressions.\<close>

definition isAZ :: "char \<Rightarrow> bool" where
  "isAZ c = (65 \<le> codeUnit c \<and> codeUnit c \<le> 90)"

section \<open>Soundex (soundex.js)\<close>

text \<open>
  \<open>soundexTable\<close> maps a letter to the number \<open>0\<close> or to a one-character string.
  The number \<open>0\<close> (falsy) is \<open>None\<close>, the string \<open>'d'\<close> is \<open>Some d\<close>. A key that is
  not in the table reads as \<open>undefined\<close>, falsy as well.
\<close>

definition soundexTable :: "(char \<times> char option) list" where
  "soundexTable =
     [(CHR ''A'', None), (CHR ''B'', Some CHR ''1''), (CHR ''C'', Some CHR ''2''),
      (CHR ''D'', Some CHR ''3''), (CHR ''E'', None), (CHR ''F'', Some CHR ''1''),
      (CHR ''G'', Some CHR ''2''), (CHR ''H'', None), (CHR ''I'', None),
      (CHR ''J'', Some CHR ''2''), (CHR ''K'', Some CHR ''2''), (CHR ''L'', Some CHR ''4''),
      (CHR ''M'', Some CHR ''5''), (CHR ''N'', Some CHR ''5''), (CHR ''O'', None),
      (CHR ''P'', Some CHR ''1''), (CHR ''Q'', Some CHR ''2''), (CHR ''R'', Some CHR ''6''),
      (CHR ''S'', Some CHR ''2''), (CHR ''T'', Some CHR ''3''), (CHR ''U'', None),
      (CHR ''V'', Some CHR ''1''), (CHR ''W'', None), (CHR ''X'', Some CHR ''2''),
      (CHR ''Y'', None), (CHR ''Z'', Some CHR ''2'')]"

definition tableCode :: "char \<Rightarrow> char option" where
  "tableCode c = (case map_of soundexTable c of Some v \<Rightarrow> v | None \<Rightarrow> None)"

text \<open>\<open>str.toUpperCase().replace(/[^A-Z]/g, '')\<close>\<close>

definition normalizeText :: "string \<Rightarrow> string" where
  "normalizeText str = filter isAZ (toUpperCase str)"

text \<open>
  The \<open>for\<close> loop reads \<open>str[1]\<close>, \<open>str[2]\<close>, ... in order and stops at the end of
  \<open>str\<close> or once \<open>soundexCode\<close> has four characters. The first argument is the part
  of \<open>str\<close> from index \<open>i\<close> on; the state is \<open>(soundexCode, lastCode)\<close>.
\<close>

fun soundexLoop :: "string \<Rightarrow> string \<times> char option \<Rightarrow> string \<times> char option" where
  "soundexLoop [] (soundexCode, lastCode) = (soundexCode, lastCode)"
| "soundexLoop (char # rest) (soundexCode, lastCode) =
     (if length soundexCode < 4 then
        (case tableCode char of
           Some code \<Rightarrow>
             if Some code \<noteq> lastCode then soundexLoop rest (soundexCode @ [code], Some code)
             else soundexLoop rest (soundexCode, lastCode)
         | None \<Rightarrow> soundexLoop rest (soundexCode, lastCode))
      else (soundexCode, lastCode))"

text \<open>\<open>while (soundexCode.length < 4) soundexCode += '0'\<close>\<close>

function padZeros :: "string \<Rightarrow> string" where
  "padZeros soundexCode =
     (if length soundexCode < 4 then padZeros (soundexCode @ ''0'') else soundexCode)"
  by pat_completeness auto
termination
  by (relation "measure (\<lambda>soundexCode. 4 - length soundexCode)") auto

declare padZeros.simps [simp del]

text \<open>The code before the padding loop: the retained letter and the appended digits.\<close>

definition soundexUnpadded :: "string \<Rightarrow> string" where
  "soundexUnpadded str =
     (case normalizeText str of
        [] \<Rightarrow> []
      | first # rest \<Rightarrow> fst (soundexLoop rest ([first], tableCode first)))"

definition soundex :: "string \<Rightarrow> string" where
  "soundex str = (if normalizeText str = [] then [] else padZeros (soundexUnpadded str))"

text \<open>
  Two notions for the properties of the loop. \<open>chained lastCode ds\<close>: no two
  neighbours of \<open>ds\<close> are equal, and \<open>ds\<close> does not start with the digit of
  \<open>lastCode\<close>. \<open>register soundexCode\<close>: the group appended last, or the group of
  the first letter when nothing was appended.
\<close>

fun chained :: "char option \<Rightarrow> string \<Rightarrow> bool" where
  "chained None ds = distinct_adj ds"
| "chained (Some d) ds = distinct_adj (d # ds)"

definition register :: "string \<Rightarrow> char option" where
  "register soundexCode =
     (if tl soundexCode = [] then tableCode (hd soundexCode) else Some (last soundexCode))"

section \<open>Metaphone (metaphone.js)\<close>

text \<open>Special encodings.\<close>

definition SH :: string where
  "SH = ''X''"

definition TH :: string where
  "TH = ''0''"

definition codes :: "nat list" where
  "codes = [1, 16, 4, 16, 9, 2, 4, 16, 9, 2, 0, 2, 2, 2, 1, 4, 0, 2, 4, 4, 1, 0, 0, 0, 8, 0]"

text \<open>
  The letters handed around by the encoder are strings of length one, the empty string
  (what \<open>convertRaw\<close> makes of \<open>undefined\<close>) or the string \<open>'\0'\<close>. On the empty
  string \<open>charCodeAt(0)\<close> is \<open>NaN\<close>, both comparisons are false and \<open>encode\<close> is \<open>0\<close>.
\<close>

definition encode :: "string \<Rightarrow> nat" where
  "encode c =
     (case c of
        [] \<Rightarrow> 0
      | c0 # _ \<Rightarrow>
          (let charCode = codeUnit c0 - 65
           in if charCode \<ge> 0 \<and> charCode < 26 then codes ! nat charCode else 0))"

definition isVowel :: "string \<Rightarrow> nat" where
  "isVowel c = encode c AND 1"

definition noChange :: "string \<Rightarrow> nat" where
  "noChange c = encode c AND 2"

definition affectH :: "string \<Rightarrow> nat" where
  "affectH c = encode c AND 4"

definition makeSoft :: "string \<Rightarrow> nat" where
  "makeSoft c = encode c AND 8"

definition noGhToF :: "string \<Rightarrow> nat" where
  "noGhToF c = encode c AND 16"

text \<open>
  \<open>word[idx]\<close>: the code unit at \<open>idx\<close>, or \<open>undefined\<close> (\<open>None\<close>) when \<open>idx\<close> is
  negative or past the end.
\<close>

definition at :: "string \<Rightarrow> int \<Rightarrow> char option" where
  "at word idx = (if 0 \<le> idx \<and> idx < int (length word) then Some (word ! nat idx) else None)"

definition convertRaw :: "char option \<Rightarrow> string" where
  "convertRaw c = (case c of Some c0 \<Rightarrow> toUpperCase [c0] | None \<Rightarrow> [])"

definition lookAhead :: "string \<Rightarrow> int \<Rightarrow> int \<Rightarrow> string" where
  "lookAhead word w_idx how_far =
     (let idx = w_idx + how_far
      in if idx < int (length word) then convertRaw (at word idx) else [CHR 0x00])"

text \<open>
  \<open>/[A-Z]/.test(s)\<close>: some character of \<open>s\<close> is in \<open>A\<close>..\<open>Z\<close>. The test turns
  \<open>undefined\<close> into the string \<open>undefined\<close> first.
\<close>

definition testAZ :: "string \<Rightarrow> bool" where
  "testAZ s = list_ex isAZ s"

definition toStr :: "char option \<Rightarrow> string" where
  "toStr c = (case c of Some c0 \<Rightarrow> [c0] | None \<Rightarrow> ''undefined'')"

text \<open>\<open>phonize\<close> appends to \<open>result\<close> while there is room in the buffer.\<close>

definition phonize :: "int \<Rightarrow> string \<Rightarrow> string \<Rightarrow> string" where
  "phonize maxBufferLen result c =
     (if int (length result) < maxBufferLen then result @ c else result)"

text \<open>The loop that skips to the first letter.\<close>

function skipToLetter :: "string \<Rightarrow> int \<Rightarrow> int \<Rightarrow> int" where
  "skipToLetter word wordLen w_idx =
     (if \<not> testAZ (toStr (at word w_idx)) \<and> w_idx < wordLen
      then skipToLetter word wordLen (w_idx + 1) else w_idx)"
  by pat_completeness auto
termination
  by (relation "measure (\<lambda>(word, wordLen, w_idx). nat (wordLen - w_idx))") auto

declare skipToLetter.simps [simp del]

text \<open>The special cases for the first letter; the state is \<open>(result, w_idx)\<close>.\<close>

definition firstLetter :: "string \<Rightarrow> int \<Rightarrow> string \<times> int \<Rightarrow> string \<times> int" where
  "firstLetter word maxBufferLen = (\<lambda>(result, w_idx).
     let currLetter = convertRaw (at word w_idx) in
     if currLetter = ''A'' then
       (if convertRaw (at word (w_idx + 1)) = ''E''
        then (phonize maxBufferLen result ''E'', w_idx + 2)
        else (phonize maxBufferLen result ''A'', w_idx + 1))
     else if currLetter = ''G'' \<or> currLetter = ''K'' \<or> currLetter = ''P'' then
       (if convertRaw (at word (w_idx + 1)) = ''N''
        then (phonize maxBufferLen result ''N'', w_idx + 2)
        else (result, w_idx))
     else if currLetter = ''W'' then
       (let nextLetter = convertRaw (at word (w_idx + 1)) in
        if nextLetter = ''R'' then (phonize maxBufferLen result ''R'', w_idx + 2)
        else if nextLetter = ''H'' \<or> isVowel nextLetter \<noteq> 0
        then (phonize maxBufferLen result ''W'', w_idx + 2)
        else (result, w_idx))
     else if currLetter = ''X'' then (phonize maxBufferLen result ''S'', w_idx + 1)
     else if currLetter = ''E'' \<or> currLetter = ''I'' \<or> currLetter = ''O'' \<or> currLetter = ''U''
     then (phonize maxBufferLen result currLetter, w_idx + 1)
     else (result, w_idx))"

text \<open>
  The \<open>switch\<close> of the main loop on a letter: the new \<open>result\<close> and the cursor,
  moved by the branches that consume a second letter.
\<close>

definition letterRule :: "string \<Rightarrow> int \<Rightarrow> string \<Rightarrow> string \<times> int \<Rightarrow> string \<times> int" where
  "letterRule word maxBufferLen currLetter = (\<lambda>(result, w_idx).
     let prevLetter = (if w_idx > 0 then convertRaw (at word (w_idx - 1)) else [CHR 0x00]);
         nextLetter = convertRaw (at word (w_idx + 1));
         afterNextLetter = lookAhead word w_idx 2
     in
     if currLetter = ''B'' then
       (if prevLetter \<noteq> ''M'' then (phonize maxBufferLen result ''B'', w_idx)
        else (result, w_idx))
     else if currLetter = ''C'' then
       (if makeSoft nextLetter \<noteq> 0 then
          (if nextLetter = ''I'' \<and> afterNextLetter = ''A''
           then (phonize maxBufferLen result SH, w_idx)
           else if prevLetter \<noteq> ''S'' then (phonize maxBufferLen result ''S'', w_idx)
           else (result, w_idx))
        else if nextLetter = ''H'' then
          (if \<not> noGhToF prevLetter \<noteq> 0 \<or> afterNextLetter = ''R''
           then (phonize maxBufferLen result ''K'', w_idx + 1)
           else (phonize maxBufferLen result SH, w_idx + 1))
        else (phonize maxBufferLen result ''K'', w_idx))
     else if currLetter = ''D'' then
       (if nextLetter = ''G'' \<and> makeSoft afterNextLetter \<noteq> 0
        then (phonize maxBufferLen result ''J'', w_idx + 1)
        else (phonize maxBufferLen result ''T'', w_idx))
     else if currLetter = ''G'' then
       (if nextLetter = ''H'' \<and> \<not> noGhToF (lookAhead word w_idx (- 3)) \<noteq> 0
        then (phonize maxBufferLen result ''F'', w_idx + 1)
        else if nextLetter \<noteq> ''N'' \<and> makeSoft nextLetter \<noteq> 0
        then (phonize maxBufferLen result ''J'', w_idx)
        else (phonize maxBufferLen result ''K'', w_idx))
     else if currLetter = ''H'' then
       (if isVowel nextLetter \<noteq> 0 \<and> \<not> affectH prevLetter \<noteq> 0
        then (phonize maxBufferLen result ''H'', w_idx)
        else (result, w_idx))
     else if currLetter = ''K'' then
       (if prevLetter \<noteq> ''C'' then (phonize maxBufferLen result ''K'', w_idx)
        else (result, w_idx))
     else if currLetter = ''P'' then
       (if nextLetter = ''H'' then (phonize maxBufferLen result ''F'', w_idx)
        else (phonize maxBufferLen result ''P'', w_idx))
     else if currLetter = ''S'' then
       (if nextLetter = ''H''
           \<or> (nextLetter = ''I'' \<and> (afterNextLetter = ''A'' \<or> afterNextLetter = ''O''))
        then (phonize maxBufferLen result SH, w_idx + 1)
        else (phonize maxBufferLen result ''S'', w_idx))
     else if currLetter = ''T'' then
       (if nextLetter = ''H'' then (phonize maxBufferLen result TH, w_idx + 1)
        else if nextLetter = ''I'' \<and> (afterNextLetter = ''A'' \<or> afterNextLetter = ''O'')
        then (phonize maxBufferLen result SH, w_idx)
        else (phonize maxBufferLen result ''T'', w_idx))
     else if currLetter = ''W'' then
       (if isVowel nextLetter \<noteq> 0 then (phonize maxBufferLen result ''W'', w_idx)
        else (result, w_idx))
     else if currLetter = ''X'' then
       (phonize maxBufferLen (phonize maxBufferLen result ''K'') ''S'', w_idx)
     else if currLetter = ''Y'' then
       (if isVowel nextLetter \<noteq> 0 then (phonize maxBufferLen result ''Y'', w_idx)
        else (result, w_idx))
     else if currLetter = ''Z'' then (phonize maxBufferLen result ''S'', w_idx)
     else
       (if noChange currLetter \<noteq> 0 then (phonize maxBufferLen result currLetter, w_idx)
        else (result, w_idx)))"

text \<open>
  One iteration of the main loop: a character that is no letter is skipped
  (\<open>continue\<close>); a letter goes through the \<open>switch\<close>, and the cursor moves on by one.
\<close>

definition loopBody :: "string \<Rightarrow> int \<Rightarrow> string \<times> int \<Rightarrow> string \<times> int" where
  "loopBody word maxBufferLen = (\<lambda>(result, w_idx).
     let currLetter = convertRaw (at word w_idx) in
     if \<not> testAZ currLetter then (result, w_idx + 1)
     else (case letterRule word maxBufferLen currLetter (result, w_idx) of
             (result', w_idx') \<Rightarrow> (result', w_idx' + 1)))"

definition loopCond :: "int \<Rightarrow> int \<Rightarrow> string \<times> int \<Rightarrow> bool" where
  "loopCond wordLen maxPhonemes = (\<lambda>(result, w_idx).
     w_idx < wordLen \<and> (maxPhonemes = 0 \<or> int (length result) < maxPhonemes))"

text \<open>
  A property that holds of both branches holds of the conditional; used branch by
  branch on the \<open>switch\<close>, which is too large to split at once.
\<close>

lemma if_cases_both: "(c \<Longrightarrow> P a) \<Longrightarrow> (\<not> c \<Longrightarrow> P b) \<Longrightarrow> P (if c then a else b)"
  by simp

lemma letterRule_cursor:
  "snd (letterRule word maxBufferLen currLetter (result, w_idx)) \<in> {w_idx, w_idx + 1}"
  unfolding letterRule_def Let_def prod.case
  by (intro if_cases_both [where P = "\<lambda>st. snd st \<in> {w_idx, w_idx + 1}"]) simp_all

lemma loopBody_cursor:
  "snd (loopBody word maxBufferLen (result, w_idx)) \<in> {w_idx + 1, w_idx + 2}"
  using letterRule_cursor [of word maxBufferLen "convertRaw (at word w_idx)" result w_idx]
  by (cases "letterRule word maxBufferLen (convertRaw (at word w_idx)) (result, w_idx)")
    (auto simp add: loopBody_def Let_def)

function mainLoop :: "string \<Rightarrow> int \<Rightarrow> int \<Rightarrow> int \<Rightarrow> string \<times> int \<Rightarrow> string" where
  "mainLoop word wordLen maxPhonemes maxBufferLen (result, w_idx) =
     (if loopCond wordLen maxPhonemes (result, w_idx)
      then mainLoop word wordLen maxPhonemes maxBufferLen (loopBody word maxBufferLen (result, w_idx))
      else result)"
  by pat_completeness auto
termination
proof (relation "measure (\<lambda>(word, wordLen, maxPhonemes, maxBufferLen, st). nat (wordLen - snd st))")
  show "wf (measure (\<lambda>(word, wordLen, maxPhonemes, maxBufferLen, st). nat (wordLen - snd st)))"
    by simp
next
  fix word :: string and wordLen maxPhonemes maxBufferLen :: int and result :: string
    and w_idx :: int
  assume "loopCond wordLen maxPhonemes (result, w_idx)"
  then have "w_idx < wordLen"
    by (simp add: loopCond_def)
  with loopBody_cursor [of word maxBufferLen result w_idx]
  show "((word, wordLen, maxPhonemes, maxBufferLen, loopBody word maxBufferLen (result, w_idx)),
         (word, wordLen, maxPhonemes, maxBufferLen, result, w_idx))
        \<in> measure (\<lambda>(word, wordLen, maxPhonemes, maxBufferLen, st). nat (wordLen - snd st))"
    by auto
qed

declare mainLoop.simps [simp del]

definition metaphone :: "string \<Rightarrow> int \<Rightarrow> string" where
  "metaphone word0 maxPhonemes =
     (let result = [];
          w_idx = 0;
          wordLen = int (length word0);
          word = toUpperCase word0;
          maxBufferLen = (if maxPhonemes > 0 then maxPhonemes else wordLen);
          w_idx = skipToLetter word wordLen w_idx
      in if w_idx \<ge> wordLen then result
         else mainLoop word wordLen maxPhonemes maxBufferLen
                (firstLetter word maxBufferLen (result, w_idx)))"

subsection \<open>The loops with a bound on the iterations\<close>

text \<open>
  The two loops again, with a bound on the number of iterations: every iteration takes
  one unit of \<open>fuel\<close>, the units left after the first loop go to the main loop, and
  running out of fuel is \<open>None\<close>. The bodies and conditions are those of
  \<open>skipToLetter\<close> and \<open>mainLoop\<close>.
\<close>

fun skipToLetterFuel :: "nat \<Rightarrow> string \<Rightarrow> int \<Rightarrow> int \<Rightarrow> (nat \<times> int) option" where
  "skipToLetterFuel 0 word wordLen w_idx =
     (if \<not> testAZ (toStr (at word w_idx)) \<and> w_idx < wordLen then None else Some (0, w_idx))"
| "skipToLetterFuel (Suc fuel) word wordLen w_idx =
     (if \<not> testAZ (toStr (at word w_idx)) \<and> w_idx < wordLen
      then skipToLetterFuel fuel word wordLen (w_idx + 1) else Some (Suc fuel, w_idx))"

fun mainLoopFuel :: "nat \<Rightarrow> string \<Rightarrow> int \<Rightarrow> int \<Rightarrow> int \<Rightarrow> string \<times> int \<Rightarrow> string option" where
  "mainLoopFuel 0 word wordLen maxPhonemes maxBufferLen (result, w_idx) =
     (if loopCond wordLen maxPhonemes (result, w_idx) then None else Some result)"
| "mainLoopFuel (Suc fuel) word wordLen maxPhonemes maxBufferLen (result, w_idx) =
     (if loopCond wordLen maxPhonemes (result, w_idx)
      then mainLoopFuel fuel word wordLen maxPhonemes maxBufferLen
             (loopBody word maxBufferLen (result, w_idx))
      else Some result)"

definition metaphoneFuel :: "nat \<Rightarrow> string \<Rightarrow> int \<Rightarrow> string option" where
  "metaphoneFuel fuel word0 maxPhonemes =
     (let result = [];
          w_idx = 0;
          wordLen = int (length word0);
          word = toUpperCase word0;
          maxBufferLen = (if maxPhonemes > 0 then maxPhonemes else wordLen)
      in case skipToLetterFuel fuel word wordLen w_idx of
           None \<Rightarrow> None
         | Some (fuel', w_idx) \<Rightarrow>
             if w_idx \<ge> wordLen then Some result
             else mainLoopFuel fuel' word wordLen maxPhonemes maxBufferLen
                    (firstLetter word maxBufferLen (result, w_idx)))"

subsection \<open>The rule for \<open>C\<close> before \<open>H\<close> as the specification words it\<close>

text \<open>
  The specification's wording of the rule, for comparison with \<open>letterRule\<close>: on
  \<open>C\<close> before \<open>H\<close> the symbol is \<open>K\<close> unless the letter three positions back is in
  the no-GH-to-F class, and \<open>K\<close> as well when the letter after the \<open>H\<close> is \<open>R\<close>;
  otherwise it is the SH symbol. The letter three positions back is read as the rule
  for \<open>G\<close> reads it, with \<open>lookAhead(word, w_idx, -3)\<close>.
\<close>

definition claimedSymbolCH :: "string \<Rightarrow> int \<Rightarrow> string" where
  "claimedSymbolCH word w_idx =
     (if \<not> noGhToF (lookAhead word w_idx (- 3)) \<noteq> 0 \<or> lookAhead word w_idx 2 = ''R''
      then ''K'' else SH)"

section \<open>Properties of Soundex\<close>

lemma padZeros_eq: "padZeros s = s @ replicate (4 - length s) (CHR ''0'')"
proof (induction s rule: padZeros.induct)
  case (1 s)
  show ?case
  proof (cases "length s < 4")
    case True
    then have "4 - length s = Suc (4 - length (s @ ''0''))" by simp
    with 1 True show ?thesis
      by (simp add: replicate_append_same padZeros.simps [of s])
  next
    case False
    then show ?thesis by (simp add: padZeros.simps [of s])
  qed
qed

lemma tableCode_digit: "tableCode c = Some d \<Longrightarrow> d \<in> set ''123456''"
  by (auto simp add: tableCode_def soundexTable_def split: if_splits)

lemma soundexLoop_appends:
  "length soundexCode \<le> 4 \<Longrightarrow>
   \<exists>ds. fst (soundexLoop rest (soundexCode, lastCode)) = soundexCode @ ds \<and>
        length (soundexCode @ ds) \<le> 4 \<and> set ds \<subseteq> set ''123456'' \<and> chained lastCode ds"
proof (induction rest arbitrary: soundexCode lastCode)
  case Nil
  then show ?case by (cases lastCode) simp_all
next
  case (Cons char rest)
  show ?case
  proof (cases "length soundexCode < 4")
    case False
    then show ?thesis using Cons.prems by (cases lastCode) simp_all
  next
    case room: True
    show ?thesis
    proof (cases "tableCode char")
      case None
      then show ?thesis using Cons.IH [OF Cons.prems, of lastCode] room by simp
    next
      case (Some code)
      show ?thesis
      proof (cases "Some code = lastCode")
        case True
        then have "lastCode = Some code" by simp
        then show ?thesis using Cons.IH [OF Cons.prems, of lastCode] room Some by simp
      next
        case False
        from room have "length (soundexCode @ [code]) \<le> 4" by simp
        from Cons.IH [OF this, of "Some code"] obtain ds where
          ds: "fst (soundexLoop rest (soundexCode @ [code], Some code)) = (soundexCode @ [code]) @ ds"
            "length ((soundexCode @ [code]) @ ds) \<le> 4" "set ds \<subseteq> set ''123456''"
            "chained (Some code) ds"
          by blast
        have "chained lastCode (code # ds)"
          using False ds(4) by (cases lastCode) simp_all
        moreover have "set (code # ds) \<subseteq> set ''123456''"
          using ds(3) tableCode_digit [OF Some] by simp
        ultimately show ?thesis
          using ds(1,2) room Some False
          by (intro exI [of _ "code # ds"]) simp
      qed
    qed
  qed
qed


lemma soundexLoop_full:
  "\<not> length soundexCode < 4 \<Longrightarrow> soundexLoop rest (soundexCode, lastCode) = (soundexCode, lastCode)"
  by (cases rest) simp_all

lemma soundexLoop_append:
  "soundexLoop (xs @ ys) st = soundexLoop ys (soundexLoop xs st)"
proof (induction xs arbitrary: st)
  case Nil
  then show ?case by (cases st) simp
next
  case (Cons x xs)
  obtain soundexCode lastCode where st: "st = (soundexCode, lastCode)"
    by (cases st)
  show ?case
  proof (cases "length soundexCode < 4")
    case True
    then show ?thesis using Cons.IH by (simp add: st split: option.split)
  next
    case False
    then show ?thesis by (simp add: st soundexLoop_full)
  qed
qed

lemma soundexLoop_no_digit:
  "\<forall>v\<in>set vs. tableCode v = None \<Longrightarrow> soundexLoop vs (soundexCode, lastCode) = (soundexCode, lastCode)"
  by (induction vs) simp_all

lemma soundexLoop_same_group:
  "tableCode c = lastCode \<Longrightarrow>
   soundexLoop [c] (soundexCode, lastCode) = (soundexCode, lastCode)"
  by (cases lastCode) auto

lemma soundexLoop_register:
  "soundexCode \<noteq> [] \<Longrightarrow> lastCode = register soundexCode \<Longrightarrow>
   snd (soundexLoop rest (soundexCode, lastCode)) = register (fst (soundexLoop rest (soundexCode, lastCode)))"
proof (induction rest arbitrary: soundexCode lastCode)
  case Nil
  then show ?case by simp
next
  case (Cons char rest)
  have app: "register (soundexCode @ [code]) = Some code" for code
    using Cons.prems(1) by (cases soundexCode) (simp_all add: register_def)
  show ?case
    using Cons.IH [OF Cons.prems] Cons.IH [of "soundexCode @ [the (tableCode char)]" "tableCode char"]
      app Cons.prems
    by (auto split: option.split)
qed


text \<open>
  Claim C3. For every text: when the text has at least one letter \<open>A\<close>..\<open>Z\<close> after
  upper-casing and filtering, \<open>soundex\<close> returns exactly four characters, namely the
  first letter, at most three digits of \<open>1\<close>..\<open>6\<close>, and \<open>0\<close>s on the right up to
  length four; when it has none, \<open>soundex\<close> returns the empty string.
\<close>

theorem soundex_length_four:
  "(normalizeText text \<noteq> [] \<longrightarrow>
      length (soundex text) = 4 \<and>
      soundex text = soundexUnpadded text @ replicate (4 - length (soundexUnpadded text)) (CHR ''0'') \<and>
      (\<exists>ds. soundexUnpadded text = hd (normalizeText text) # ds \<and> length ds \<le> 3 \<and>
            set ds \<subseteq> set ''123456'')) \<and>
   (normalizeText text = [] \<longrightarrow> soundex text = [])"
proof (cases "normalizeText text")
  case Nil
  then show ?thesis by (simp add: soundex_def)
next
  case (Cons first rest)
  from soundexLoop_appends [of "[first]" rest "tableCode first"] obtain ds where
    ds: "fst (soundexLoop rest ([first], tableCode first)) = [first] @ ds"
      "length ([first] @ ds) \<le> 4" "set ds \<subseteq> set ''123456''"
    by auto
  then have u: "soundexUnpadded text = first # ds"
    by (simp add: soundexUnpadded_def Cons)
  have "soundex text = padZeros (soundexUnpadded text)"
    by (simp add: soundex_def Cons)
  then have "soundex text = soundexUnpadded text @ replicate (4 - length (soundexUnpadded text)) (CHR ''0'')"
    by (simp only: padZeros_eq)
  then show ?thesis using u ds(2,3) Cons by simp
qed

theorem soundex_length_four_witness:
  "normalizeText ''Robert'' \<noteq> [] \<and> length (soundex ''Robert'') = 4 \<and>
   normalizeText ''12 3'' = [] \<and> soundex ''12 3'' = []"
proof -
  have n1: "normalizeText ''Robert'' \<noteq> []"
    by code_simp
  have n2: "normalizeText ''12 3'' = []"
    by code_simp
  from soundex_length_four [of "''Robert''"] n1 have "length (soundex ''Robert'') = 4"
    by blast
  moreover from soundex_length_four [of "''12 3''"] n2 have "soundex ''12 3'' = []"
    by blast
  ultimately show ?thesis using n1 n2 by blast
qed

text \<open>
  Claim C8. \<open>soundex("Robert")\<close> and \<open>soundex("Rupert")\<close> are both \<open>R163\<close>;
  \<open>soundex("")\<close> and \<open>soundex("123")\<close> are both the empty string.
\<close>

theorem soundex_examples:
  "soundex ''Robert'' = ''R163'' \<and> soundex ''Rupert'' = ''R163'' \<and>
   soundex [] = [] \<and> soundex ''123'' = []"
  by code_simp


text \<open>
  Claim C5. For every text with a letter, the code before zero-padding is the first
  letter followed by digits of which no two neighbours are equal, and the first digit,
  when there is one, is not the digit group of the first letter.
\<close>

theorem soundex_groups_collapsed:
  assumes "normalizeText text \<noteq> []"
  shows "\<exists>ds. soundexUnpadded text = hd (normalizeText text) # ds \<and>
              soundex text = (hd (normalizeText text) # ds) @ replicate (3 - length ds) (CHR ''0'') \<and>
              distinct_adj ds \<and>
              (ds \<noteq> [] \<longrightarrow> Some (hd ds) \<noteq> tableCode (hd (normalizeText text)))"
proof -
  from assms obtain first rest where n: "normalizeText text = first # rest"
    by (cases "normalizeText text") auto
  from soundexLoop_appends [of "[first]" rest "tableCode first"] obtain ds where
    ds: "fst (soundexLoop rest ([first], tableCode first)) = [first] @ ds"
      "chained (tableCode first) ds"
    by auto
  have u: "soundexUnpadded text = first # ds"
    using ds(1) by (simp add: soundexUnpadded_def n)
  have "soundex text = padZeros (first # ds)"
    using u by (simp add: soundex_def n)
  then have p: "soundex text = (first # ds) @ replicate (3 - length ds) (CHR ''0'')"
    by (simp only: padZeros_eq) simp
  have "distinct_adj ds \<and> (ds \<noteq> [] \<longrightarrow> Some (hd ds) \<noteq> tableCode first)"
    using ds(2) by (cases "tableCode first") (auto simp add: distinct_adj_Cons)
  with u p show ?thesis by (simp add: n)
qed

theorem soundex_groups_collapsed_witness:
  "normalizeText ''Pfister'' \<noteq> [] \<and>
   (\<exists>ds. soundexUnpadded ''Pfister'' = hd (normalizeText ''Pfister'') # ds \<and>
         soundex ''Pfister'' = (hd (normalizeText ''Pfister'') # ds) @ replicate (3 - length ds) (CHR ''0'') \<and>
         distinct_adj ds \<and> Some (hd ds) \<noteq> tableCode (hd (normalizeText ''Pfister''))) \<and>
   soundexUnpadded ''Pfister'' = ''P236''"
proof -
  have n: "normalizeText ''Pfister'' \<noteq> []"
    by code_simp
  have u: "soundexUnpadded ''Pfister'' = ''P236''"
    by code_simp
  from soundex_groups_collapsed [OF n] obtain ds where
    ds: "soundexUnpadded ''Pfister'' = hd (normalizeText ''Pfister'') # ds"
      "soundex ''Pfister'' = (hd (normalizeText ''Pfister'') # ds) @ replicate (3 - length ds) (CHR ''0'')"
      "distinct_adj ds" "ds \<noteq> [] \<longrightarrow> Some (hd ds) \<noteq> tableCode (hd (normalizeText ''Pfister''))"
    by blast
  from ds(1) u have "ds \<noteq> []"
    by auto
  with ds n u show ?thesis by blast
qed

text \<open>
  Claim C9. No letter without a digit (a vowel, \<open>H\<close>, \<open>W\<close>, \<open>Y\<close>) resets the
  last-digit register. After any letters \<open>pre\<close> the register is the group appended
  last, or the seed when nothing was appended; letters \<open>vs\<close> without a digit leave
  the state as it is; a letter \<open>c\<close> of the register's group that follows them is
  skipped, so the text encodes as it does without \<open>vs\<close> and \<open>c\<close>.
\<close>

theorem soundex_register_kept:
  assumes "normalizeText text = first # pre @ vs @ c # rest"
    and "normalizeText text' = first # pre @ rest"
    and "\<forall>v\<in>set vs. tableCode v = None"
    and "tableCode c = snd (soundexLoop pre ([first], tableCode first))"
  shows "snd (soundexLoop pre ([first], tableCode first))
           = register (fst (soundexLoop pre ([first], tableCode first))) \<and>
         soundexLoop (pre @ vs) ([first], tableCode first)
           = soundexLoop pre ([first], tableCode first) \<and>
         soundexLoop (pre @ vs @ [c]) ([first], tableCode first)
           = soundexLoop pre ([first], tableCode first) \<and>
         soundex text = soundex text'"
proof -
  let ?st = "soundexLoop pre ([first], tableCode first)"
  obtain soundexCode lastCode where st: "?st = (soundexCode, lastCode)"
    by (cases ?st)
  have r: "snd ?st = register (fst ?st)"
    by (rule soundexLoop_register) (simp_all add: register_def)
  have v: "soundexLoop vs ?st = ?st"
    using assms(3) by (simp add: st soundexLoop_no_digit)
  have "tableCode c = lastCode"
    using assms(4) st by simp
  then have c: "soundexLoop [c] ?st = ?st"
    using soundexLoop_same_group [of c lastCode soundexCode] by (simp add: st)
  have "soundexLoop (c # rest) ?st = soundexLoop rest (soundexLoop [c] ?st)"
    using soundexLoop_append [of "[c]" rest ?st] by simp
  then have "soundexLoop (pre @ vs @ c # rest) ([first], tableCode first)
          = soundexLoop (pre @ rest) ([first], tableCode first)"
    by (simp add: soundexLoop_append v c)
  then have "soundexUnpadded text = soundexUnpadded text'"
    by (simp add: soundexUnpadded_def assms(1,2))
  then have "soundex text = soundex text'"
    by (simp add: soundex_def assms(1,2))
  with r v c show ?thesis by (simp add: soundexLoop_append)
qed

theorem soundex_register_kept_witness:
  "normalizeText ''Tahoed'' = CHR ''T'' # [] @ ''AHOE'' @ CHR ''D'' # [] \<and>
   normalizeText ''t'' = CHR ''T'' # [] @ [] \<and>
   tableCode (CHR ''A'') = None \<and> tableCode (CHR ''H'') = None \<and>
   tableCode (CHR ''D'') = snd (soundexLoop [] (''T'', tableCode (CHR ''T''))) \<and>
   soundex ''Tahoed'' = soundex ''t'' \<and> soundex ''Tahoed'' = ''T000''"
proof -
  have a: "normalizeText ''Tahoed'' = CHR ''T'' # [] @ ''AHOE'' @ CHR ''D'' # []"
    by code_simp
  have b: "normalizeText ''t'' = CHR ''T'' # [] @ []"
    by code_simp
  have v: "\<forall>v\<in>set ''AHOE''. tableCode v = None"
    by (simp add: tableCode_def soundexTable_def)
  have c: "tableCode (CHR ''D'') = snd (soundexLoop [] (''T'', tableCode (CHR ''T'')))"
    by (simp add: tableCode_def soundexTable_def)
  have s: "soundex ''Tahoed'' = ''T000''"
    by code_simp
  from soundex_register_kept [OF a b v c] have "soundex ''Tahoed'' = soundex ''t''"
    by blast
  with a b v c s show ?thesis by simp
qed

section \<open>Properties of Metaphone\<close>

subsection \<open>The buffer bound\<close>

text \<open>
  \<open>phonize\<close> is the only place where \<open>result\<close> grows, by one symbol and only
  below \<open>maxBufferLen\<close>; so \<open>result\<close> never gets longer than \<open>maxBufferLen\<close>.
\<close>

lemma convertRaw_length: "length (convertRaw c) \<le> Suc 0"
  by (cases c) (simp_all add: convertRaw_def toUpperCase_def)

lemma phonize_length:
  "int (length result) \<le> maxBufferLen \<Longrightarrow> length c \<le> Suc 0 \<Longrightarrow>
   int (length (phonize maxBufferLen result c)) \<le> maxBufferLen"
  by (simp add: phonize_def)

lemma letterRule_length:
  assumes "length currLetter \<le> Suc 0" and "int (length result) \<le> maxBufferLen"
  shows "int (length (fst (letterRule word maxBufferLen currLetter (result, w_idx)))) \<le> maxBufferLen"
  unfolding letterRule_def Let_def prod.case
  by (intro if_cases_both [where P = "\<lambda>st. int (length (fst st)) \<le> maxBufferLen"])
    (simp_all add: assms phonize_length SH_def TH_def)

lemma firstLetter_length:
  assumes "int (length result) \<le> maxBufferLen"
  shows "int (length (fst (firstLetter word maxBufferLen (result, w_idx)))) \<le> maxBufferLen"
  unfolding firstLetter_def Let_def prod.case
  by (intro if_cases_both [where P = "\<lambda>st. int (length (fst st)) \<le> maxBufferLen"])
    (simp_all add: assms phonize_length convertRaw_length)

lemma loopBody_length:
  assumes "int (length result) \<le> maxBufferLen"
  shows "int (length (fst (loopBody word maxBufferLen (result, w_idx)))) \<le> maxBufferLen"
  using letterRule_length [where currLetter = "convertRaw (at word w_idx)" and word = word
      and w_idx = w_idx, OF convertRaw_length assms] assms
  by (cases "letterRule word maxBufferLen (convertRaw (at word w_idx)) (result, w_idx)")
    (simp add: loopBody_def Let_def)

lemma mainLoop_length:
  "int (length result) \<le> maxBufferLen \<Longrightarrow>
   int (length (mainLoop word wordLen maxPhonemes maxBufferLen (result, w_idx))) \<le> maxBufferLen"
proof (induction word wordLen maxPhonemes maxBufferLen "(result, w_idx)"
    arbitrary: result w_idx rule: mainLoop.induct)
  case (1 word wordLen maxPhonemes maxBufferLen result w_idx)
  show ?case
  proof (cases "loopCond wordLen maxPhonemes (result, w_idx)")
    case False
    then show ?thesis using "1.prems"
      by (simp add: mainLoop.simps [of word wordLen maxPhonemes maxBufferLen result w_idx])
  next
    case True
    obtain result' w_idx' where b: "loopBody word maxBufferLen (result, w_idx) = (result', w_idx')"
      by (cases "loopBody word maxBufferLen (result, w_idx)")
    from loopBody_length [OF "1.prems", of word w_idx] b
    have "int (length result') \<le> maxBufferLen" by simp
    from "1.hyps" [OF True b this] True b show ?thesis
      by (simp add: mainLoop.simps [of word wordLen maxPhonemes maxBufferLen result w_idx])
  qed
qed

lemma metaphone_length:
  "int (length (metaphone text maxPhonemes))
     \<le> (if maxPhonemes > 0 then maxPhonemes else int (length text))"
proof -
  define maxBufferLen where "maxBufferLen = (if maxPhonemes > 0 then maxPhonemes else int (length text))"
  define w_idx where "w_idx = skipToLetter (toUpperCase text) (int (length text)) 0"
  obtain result' w_idx' where
    f: "firstLetter (toUpperCase text) maxBufferLen ([], w_idx) = (result', w_idx')"
    by (cases "firstLetter (toUpperCase text) maxBufferLen ([], w_idx)")
  have "int (length ([]::string)) \<le> maxBufferLen"
    by (simp add: maxBufferLen_def)
  from firstLetter_length [OF this, of "toUpperCase text" w_idx] f
  have "int (length result') \<le> maxBufferLen"
    by simp
  then have "int (length (mainLoop (toUpperCase text) (int (length text)) maxPhonemes maxBufferLen
          (result', w_idx'))) \<le> maxBufferLen"
    by (rule mainLoop_length)
  moreover have "metaphone text maxPhonemes =
      (if w_idx \<ge> int (length text) then []
       else mainLoop (toUpperCase text) (int (length text)) maxPhonemes maxBufferLen (result', w_idx'))"
    unfolding metaphone_def Let_def w_idx_def [symmetric] maxBufferLen_def [symmetric] f ..
  ultimately show ?thesis
    unfolding maxBufferLen_def [symmetric] using \<open>int (length ([]::string)) \<le> maxBufferLen\<close>
    by simp
qed

text \<open>
  Claim C4. For every text and every integer \<open>k > 0\<close>, \<open>metaphone(text, k)\<close> has
  at most \<open>k\<close> symbols; the second symbol of the \<open>X\<close> rule is dropped when the
  first one fills the buffer, as in \<open>metaphone("BX", 2) = "BK"\<close>.
\<close>

theorem metaphone_capped:
  "0 < k \<Longrightarrow> int (length (metaphone text k)) \<le> k"
  using metaphone_length [of "text" k] by simp

theorem metaphone_capped_witness:
  "(0::int) < 2 \<and> int (length (metaphone ''BX'' 2)) \<le> 2 \<and> metaphone ''BX'' 2 = ''BK''"
proof -
  have k: "(0::int) < 2" by simp
  have "metaphone ''BX'' 2 = ''BK''" by code_simp
  with metaphone_capped [OF k, of "''BX''"] k show ?thesis by simp
qed

text \<open>
  Claim C1 bounds \<open>metaphone(text, 0)\<close> by the number of letters of the text. The
  code does not keep that bound: \<open>"BX1"\<close> has two letters and encodes as the three
  symbols \<open>BKS\<close>, since \<open>X\<close> emits two symbols and the buffer is as long as the
  whole text.
\<close>

theorem metaphone_uncapped_counterexample:
  "metaphone ''BX1'' 0 = ''BKS'' \<and> normalizeText ''BX1'' = ''BX'' \<and>
   \<not> length (metaphone ''BX1'' 0) \<le> length (normalizeText ''BX1'')"
  by code_simp

text \<open>
  Claim C1, amended. For every text, \<open>metaphone(text, 0)\<close> has at most as many
  symbols as the text has characters (letters or not): with no cap, \<open>maxBufferLen\<close>
  is \<open>wordLen\<close>, the length of the text.
\<close>

theorem metaphone_uncapped:
  "length (metaphone text 0) \<le> length text"
  using metaphone_length [of "text" 0] by simp

theorem metaphone_uncapped_witness:
  "length (metaphone ''BX1'' 0) \<le> length ''BX1'' \<and> length (metaphone ''BX1'' 0) = 3"
proof -
  have "length (metaphone ''BX1'' 0) = 3" by code_simp
  with metaphone_uncapped [of "''BX1''"] show ?thesis by simp
qed

subsection \<open>A negative cap\<close>

lemma mainLoop_negative:
  "maxPhonemes < 0 \<Longrightarrow> mainLoop word wordLen maxPhonemes maxBufferLen (result, w_idx) = result"
  by (simp add: loopCond_def mainLoop.simps [of word wordLen maxPhonemes maxBufferLen result w_idx])

lemma phonize_empty_length: "length c \<le> Suc 0 \<Longrightarrow> length (phonize maxBufferLen [] c) \<le> Suc 0"
  by (simp add: phonize_def)

lemma firstLetter_one:
  "length (fst (firstLetter word maxBufferLen ([], w_idx))) \<le> Suc 0"
  unfolding firstLetter_def Let_def prod.case
  by (intro if_cases_both [where P = "\<lambda>st. length (fst st) \<le> Suc 0"])
    (simp_all add: phonize_empty_length convertRaw_length)

text \<open>
  Claim C10. For every text and every integer \<open>k < 0\<close>: the condition of the main
  loop is false in every state, so \<open>metaphone(text, k)\<close> is what the first-letter
  special cases emitted (nothing for a text without a letter), at most one symbol.
\<close>

theorem metaphone_negative_cap:
  assumes "k < 0"
  shows "\<not> loopCond wordLen k (result, w_idx) \<and>
         metaphone text k =
           (let word = toUpperCase text;
                wordLen = int (length text);
                w_idx = skipToLetter word wordLen 0
            in if w_idx \<ge> wordLen then [] else fst (firstLetter word wordLen ([], w_idx))) \<and>
         length (metaphone text k) \<le> 1"
proof -
  have c: "\<not> loopCond wordLen k (result, w_idx)"
    using assms by (simp add: loopCond_def)
  have m: "metaphone text k =
           (let word = toUpperCase text;
                wordLen = int (length text);
                w_idx = skipToLetter word wordLen 0
            in if w_idx \<ge> wordLen then [] else fst (firstLetter word wordLen ([], w_idx)))"
    using assms
    by (cases "firstLetter (toUpperCase text) (int (length text))
                 ([], skipToLetter (toUpperCase text) (int (length text)) 0)")
      (simp add: metaphone_def Let_def mainLoop_negative)
  have "length (metaphone text k) \<le> 1"
    unfolding m Let_def
    using firstLetter_one [of "toUpperCase text" "int (length text)"
        "skipToLetter (toUpperCase text) (int (length text)) 0"]
    by simp
  with c m show ?thesis by simp
qed

theorem metaphone_negative_cap_witness:
  "(- 1::int) < 0 \<and> \<not> loopCond 6 (- 1) (''N'', 2) \<and>
   metaphone ''Knight'' (- 1) = ''N'' \<and> length (metaphone ''Knight'' (- 1)) \<le> 1"
proof -
  have k: "(- 1::int) < 0" by simp
  have e: "metaphone ''Knight'' (- 1) = ''N''" by code_simp
  note t = metaphone_negative_cap [OF k, of 6 "''N''" 2 "''Knight''"]
  from t have a: "\<not> loopCond 6 (- 1) (''N'', 2)" by blast
  from t have b: "length (metaphone ''Knight'' (- 1)) \<le> 1" by blast
  from k a b e show ?thesis by blast
qed

subsection \<open>Termination\<close>

lemma skipToLetterFuel_enough:
  "nat (wordLen - w_idx) \<le> fuel \<Longrightarrow>
   \<exists>fuel'. skipToLetterFuel fuel word wordLen w_idx
             = Some (fuel', skipToLetter word wordLen w_idx) \<and>
           nat (wordLen - skipToLetter word wordLen w_idx) \<le> fuel'"
proof (induction fuel arbitrary: w_idx)
  case 0
  then show ?case
    by (simp add: skipToLetter.simps [of word wordLen w_idx])
next
  case (Suc fuel)
  show ?case
  proof (cases "\<not> testAZ (toStr (at word w_idx)) \<and> w_idx < wordLen")
    case True
    with Suc.prems have "nat (wordLen - (w_idx + 1)) \<le> fuel" by simp
    from Suc.IH [OF this] True show ?thesis
      by (simp add: skipToLetter.simps [of word wordLen w_idx])
  next
    case False
    with Suc.prems show ?thesis
      by (auto simp add: skipToLetter.simps [of word wordLen w_idx])
  qed
qed

lemma mainLoopFuel_enough:
  "nat (wordLen - w_idx) \<le> fuel \<Longrightarrow>
   mainLoopFuel fuel word wordLen maxPhonemes maxBufferLen (result, w_idx)
     = Some (mainLoop word wordLen maxPhonemes maxBufferLen (result, w_idx))"
proof (induction fuel arbitrary: result w_idx)
  case 0
  then have "\<not> loopCond wordLen maxPhonemes (result, w_idx)"
    by (simp add: loopCond_def)
  then show ?case
    by (simp add: mainLoop.simps [of word wordLen maxPhonemes maxBufferLen result w_idx])
next
  case (Suc fuel)
  show ?case
  proof (cases "loopCond wordLen maxPhonemes (result, w_idx)")
    case False
    then show ?thesis
      by (simp add: mainLoop.simps [of word wordLen maxPhonemes maxBufferLen result w_idx])
  next
    case True
    obtain result' w_idx' where b: "loopBody word maxBufferLen (result, w_idx) = (result', w_idx')"
      by (cases "loopBody word maxBufferLen (result, w_idx)")
    with loopBody_cursor [of word maxBufferLen result w_idx] have "w_idx < w_idx'"
      by auto
    with Suc.prems have "nat (wordLen - w_idx') \<le> fuel"
      by simp
    from Suc.IH [OF this] True b show ?thesis
      by (simp add: mainLoop.simps [of word wordLen maxPhonemes maxBufferLen result w_idx])
  qed
qed

lemma firstLetter_cursor:
  "w_idx \<le> snd (firstLetter word maxBufferLen (result, w_idx))"
  unfolding firstLetter_def Let_def prod.case
  by (intro if_cases_both [where P = "\<lambda>st. w_idx \<le> snd st"]) simp_all

text \<open>
  Claim C6. \<open>metaphone(text, k)\<close> terminates for every text and every integer \<open>k\<close>:
  an iteration of the main loop moves the cursor forward by one position, or by two in
  a branch that consumes a second letter, and as many iterations as the text has
  characters are enough for the two loops together.
\<close>

theorem metaphone_terminates:
  "snd (loopBody word maxBufferLen (result, w_idx)) \<in> {w_idx + 1, w_idx + 2} \<and>
   metaphoneFuel (length text) text k = Some (metaphone text k)"
proof -
  define wordLen where "wordLen = int (length text)"
  define mb where "mb = (if k > 0 then k else wordLen)"
  define w where "w = skipToLetter (toUpperCase text) wordLen 0"
  have "nat (wordLen - 0) \<le> length text"
    by (simp add: wordLen_def)
  from skipToLetterFuel_enough [OF this, of "toUpperCase text"] obtain fuel' where
    s: "skipToLetterFuel (length text) (toUpperCase text) wordLen 0 = Some (fuel', w)"
      and f: "nat (wordLen - w) \<le> fuel'"
    unfolding w_def by blast
  obtain result' w' where fl: "firstLetter (toUpperCase text) mb ([], w) = (result', w')"
    by (cases "firstLetter (toUpperCase text) mb ([], w)")
  with firstLetter_cursor [of w "toUpperCase text" mb "[]"] have "w \<le> w'"
    by simp
  with f have "nat (wordLen - w') \<le> fuel'"
    by simp
  from mainLoopFuel_enough [OF this]
  have m: "mainLoopFuel fuel' (toUpperCase text) wordLen k mb (result', w')
             = Some (mainLoop (toUpperCase text) wordLen k mb (result', w'))" .
  have "metaphoneFuel (length text) text k =
          (if w \<ge> wordLen then Some []
           else mainLoopFuel fuel' (toUpperCase text) wordLen k mb (result', w'))"
    unfolding metaphoneFuel_def Let_def wordLen_def [symmetric] mb_def [symmetric] s
    by (simp add: fl)
  moreover have "metaphone text k =
          (if w \<ge> wordLen then []
           else mainLoop (toUpperCase text) wordLen k mb (result', w'))"
    unfolding metaphone_def Let_def wordLen_def [symmetric] mb_def [symmetric] w_def [symmetric] fl ..
  ultimately have "metaphoneFuel (length text) text k = Some (metaphone text k)"
    using m by simp
  with loopBody_cursor [of word maxBufferLen result w_idx] show ?thesis
    by simp
qed

theorem metaphone_terminates_witness:
  "snd (loopBody ''THOMPSON'' 8 ([], 0)) \<in> {0 + 1, 0 + 2} \<and>
   metaphoneFuel (length ''Thompson'') ''Thompson'' 0 = Some (metaphone ''Thompson'' 0) \<and>
   metaphoneFuel 8 ''Thompson'' 0 = Some ''0MPSN''"
proof -
  have "metaphoneFuel 8 ''Thompson'' 0 = Some ''0MPSN''"
    by code_simp
  with metaphone_terminates [of "''THOMPSON''" 8 "[]" 0 "''Thompson''" 0] show ?thesis
    by blast
qed

subsection \<open>The rule for \<open>C\<close> before \<open>H\<close>\<close>

lemma testAZ_C: "testAZ ''C''"
  by (simp add: testAZ_def isAZ_def codeUnit_def)

lemma makeSoft_H: "makeSoft ''H'' = 0"
  by (simp add: makeSoft_def encode_def codes_def codeUnit_def)

text \<open>
  The code decides by the letter just before the \<open>C\<close>, not by the letter three
  positions back. In \<open>LAMBCHOP\<close> the \<open>C\<close> is at index 4: three positions back is
  \<open>A\<close>, outside the class, so the claim gives \<open>K\<close>; the letter before is \<open>B\<close>, in
  the class, and the code emits the SH symbol.
\<close>

theorem letterC_before_H_counterexample:
  "convertRaw (at ''LAMBCHOP'' 4) = ''C'' \<and> convertRaw (at ''LAMBCHOP'' (4 + 1)) = ''H'' \<and>
   lookAhead ''LAMBCHOP'' 4 (- 3) = ''A'' \<and> claimedSymbolCH ''LAMBCHOP'' 4 = ''K'' \<and>
   loopBody ''LAMBCHOP'' 8 (''LM'', 4) = (''LM'' @ SH, 6) \<and>
   loopBody ''LAMBCHOP'' 8 (''LM'', 4) \<noteq> (phonize 8 ''LM'' (claimedSymbolCH ''LAMBCHOP'' 4), 6) \<and>
   metaphone ''Lambchop'' 0 = ''LMXP''"
  by code_simp

text \<open>
  Claim C2, amended. In the main loop, when the current letter is \<open>C\<close> and the next
  letter is \<open>H\<close> (which is not soft-making), the encoder calls \<open>phonize\<close> with \<open>K\<close>
  when the letter just before the \<open>C\<close> is not in the no-GH-to-F class or the letter
  after the \<open>H\<close> is \<open>R\<close>, and with the SH symbol otherwise; in both cases the cursor
  moves by two, past the \<open>H\<close>. When the buffer has room the symbol is appended.
\<close>

theorem letterC_before_H:
  assumes "convertRaw (at word w_idx) = ''C''"
    and "convertRaw (at word (w_idx + 1)) = ''H''"
  shows "makeSoft (convertRaw (at word (w_idx + 1))) = 0 \<and>
         loopBody word maxBufferLen (result, w_idx) =
           (phonize maxBufferLen result
              (if \<not> noGhToF (if w_idx > 0 then convertRaw (at word (w_idx - 1)) else [CHR 0x00]) \<noteq> 0
                    \<or> lookAhead word w_idx 2 = ''R''
               then ''K'' else SH),
            w_idx + 2) \<and>
         (int (length result) < maxBufferLen \<longrightarrow>
            fst (loopBody word maxBufferLen (result, w_idx)) =
              result @ (if \<not> noGhToF (if w_idx > 0 then convertRaw (at word (w_idx - 1)) else [CHR 0x00]) \<noteq> 0
                           \<or> lookAhead word w_idx 2 = ''R''
                        then ''K'' else SH))"
proof -
  have l: "letterRule word maxBufferLen ''C'' (result, w_idx) =
           (phonize maxBufferLen result
              (if \<not> noGhToF (if w_idx > 0 then convertRaw (at word (w_idx - 1)) else [CHR 0x00]) \<noteq> 0
                    \<or> lookAhead word w_idx 2 = ''R''
               then ''K'' else SH),
            w_idx + 1)"
    by (simp add: letterRule_def Let_def assms(2) makeSoft_H)
  have b: "loopBody word maxBufferLen (result, w_idx) =
           (phonize maxBufferLen result
              (if \<not> noGhToF (if w_idx > 0 then convertRaw (at word (w_idx - 1)) else [CHR 0x00]) \<noteq> 0
                    \<or> lookAhead word w_idx 2 = ''R''
               then ''K'' else SH),
            w_idx + 2)"
    by (simp add: loopBody_def Let_def assms(1) testAZ_C l)
  show ?thesis
    unfolding b by (simp add: assms(2) makeSoft_H phonize_def)
qed

theorem letterC_before_H_witness:
  "convertRaw (at ''CHRISTMAS'' 0) = ''C'' \<and> convertRaw (at ''CHRISTMAS'' (0 + 1)) = ''H'' \<and>
   loopBody ''CHRISTMAS'' 9 ([], 0) = (''K'', 2) \<and>
   convertRaw (at ''BCHA'' 1) = ''C'' \<and> convertRaw (at ''BCHA'' (1 + 1)) = ''H'' \<and>
   loopBody ''BCHA'' 4 (''B'', 1) = (''B'' @ SH, 3)"
proof -
  have a: "convertRaw (at ''CHRISTMAS'' 0) = ''C''" "convertRaw (at ''CHRISTMAS'' (0 + 1)) = ''H''"
    by code_simp+
  have b: "convertRaw (at ''BCHA'' 1) = ''C''" "convertRaw (at ''BCHA'' (1 + 1)) = ''H''"
    by code_simp+
  have e: "loopBody ''CHRISTMAS'' 9 ([], 0) = (''K'', 2)" "loopBody ''BCHA'' 4 (''B'', 1) = (''B'' @ SH, 3)"
    by code_simp+
  note t = letterC_before_H [OF a, of 9 "[]"] letterC_before_H [OF b, of 4 "''B''"]
  from t a b e show ?thesis by blast
qed

subsection \<open>Digraphs at the start of a word\<close>

text \<open>
  Claim C7. \<open>metaphone("Thompson", 0)\<close> starts with the TH symbol: \<open>T\<close> is no special
  first letter, and the first iteration of the main loop emits the TH symbol for \<open>TH\<close>
  and moves the cursor from 0 to 2, past the \<open>H\<close>. \<open>metaphone("Knight", 0)\<close> starts
  with \<open>N\<close>: the first-letter case \<open>KN\<close> emits \<open>N\<close> and moves the cursor to 2.
\<close>

theorem metaphone_digraph_examples:
  "metaphone ''Thompson'' 0 = TH @ ''MPSN'' \<and>
   skipToLetter (toUpperCase ''Thompson'') 8 0 = 0 \<and>
   firstLetter (toUpperCase ''Thompson'') 8 ([], 0) = ([], 0) \<and>
   loopBody (toUpperCase ''Thompson'') 8 ([], 0) = (TH, 2) \<and>
   metaphone ''Knight'' 0 = ''NFT'' \<and>
   skipToLetter (toUpperCase ''Knight'') 6 0 = 0 \<and>
   firstLetter (toUpperCase ''Knight'') 6 ([], 0) = (''N'', 2)"
  by code_simp

end
